theory Spec2Isabelle
  imports Main "HOL-Library.Multiset"
begin

section \<open>JavaScript values, objects and arrays\<close>

text \<open>
  The handlers of the track container build new arrays of track models, clone single
  models and hand the result to a callback of the parent. What they promise is about
  object identity as much as about content, so objects and arrays live in a store and
  are named by their addresses: an address is the index into the store, and allocating
  appends at the end.
\<close>

type_synonym ref = nat \<comment> \<open>address of a TrackModel object\<close>
type_synonym aref = nat \<comment> \<open>address of an array\<close>

datatype jsval = Undefined | Null | Bool bool | Num int | Str string | Obj ref

datatype error = TypeError

type_synonym TrackOptions = "(string \<times> jsval) list"

text \<open>
  Modelled from the spec: the class TrackModel (model/TrackModel) is not among the
  sources. The spec gives it a type discriminator, a data origin, an options map and the
  selection flag, and says that it supports cloning for copy-on-write updates.
\<close>

record TrackModel =
  trackType :: string
  url :: string
  options :: TrackOptions
  isSelected :: bool

text \<open>
  Modelled from the spec: \<open>MouseButtons.LEFT\<close> (util) is not among the sources; the spec
  calls it the primary button, which a DOM mouse event encodes as 0.
\<close>

definition MouseButtons_LEFT :: int where
  "MouseButtons_LEFT = 0"

text \<open>
  A mouse event as the handlers read it. \<open>targetInTrackDiv\<close> is the value of
  \<open>this.trackDiv.contains(event.target)\<close>, which the DOM decides.
\<close>

record MouseEvent =
  button :: int
  ctrlKey :: bool
  targetInTrackDiv :: bool
  pageX :: int
  pageY :: int

text \<open>
  What every version of the container shares: the store, \<open>this.props.tracks\<close> (the
  address of an array) and the calls made so far to \<open>this.props.onTracksChanged\<close>,
  oldest first, each with the address of the array it was given.
\<close>

record component =
  objects :: "TrackModel list"
  arrays :: "jsval list list"
  props_tracks :: aref
  onTracksChanged :: "aref list"

datatype tool = DRAG | ZOOM | REORDER

record TrackContainer = component +
  selectedTool :: tool
  contextMenuEvent :: "MouseEvent option"

subsection \<open>Array primitives\<close>

text \<open>
  Indices are whole numbers: the callers pass positions of rendered tracks.
  \<open>xs[i]\<close>: reading outside the array yields \<open>undefined\<close>.
\<close>

definition array_get :: "jsval list \<Rightarrow> int \<Rightarrow> jsval" where
  "array_get xs i = (if 0 \<le> i \<and> i < int (length xs) then xs ! nat i else Undefined)"

text \<open>
  The start position of \<open>Array.prototype.splice\<close>: a negative start counts from the end,
  and the result is clamped to the array.
\<close>

definition relative_start :: "nat \<Rightarrow> int \<Rightarrow> nat" where
  "relative_start len i = (if i < 0 then nat (max (int len + i) 0) else min (nat i) len)"

text \<open>
  \<open>xs.splice(start, deleteCount, ...items)\<close> on the contents of an array: the removed
  elements and the new contents.
\<close>

definition splice :: "jsval list \<Rightarrow> int \<Rightarrow> nat \<Rightarrow> jsval list \<Rightarrow> jsval list \<times> jsval list" where
  "splice xs start deleteCount items =
     (let s = relative_start (length xs) start;
          d = min deleteCount (length xs - s)
      in (take d (drop s xs), take s xs @ items @ drop (s + d) xs))"

text \<open>\<open>a.slice()\<close> allocates a new array with the elements of \<open>a\<close>.\<close>

definition slice :: "'a component_scheme \<Rightarrow> aref \<Rightarrow> aref \<times> 'a component_scheme" where
  "slice w a = (length (arrays w), w\<lparr>arrays := arrays w @ [arrays w ! a]\<rparr>)"

text \<open>
  \<open>a.splice(...)\<close> changes the array \<open>a\<close> in place. The array of removed elements it
  returns is only ever destructured at once, so it is returned as a value.
\<close>

definition array_splice ::
  "'a component_scheme \<Rightarrow> aref \<Rightarrow> int \<Rightarrow> nat \<Rightarrow> jsval list \<Rightarrow> jsval list \<times> 'a component_scheme" where
  "array_splice w a start deleteCount items =
     (case splice (arrays w ! a) start deleteCount items of
        (removed, rest) \<Rightarrow> (removed, w\<lparr>arrays := (arrays w)[a := rest]\<rparr>))"

text \<open>The destructuring \<open>const [moved] = ...\<close>: the first element, or \<open>undefined\<close>.\<close>

definition first_of :: "jsval list \<Rightarrow> jsval" where
  "first_of xs = (case xs of [] \<Rightarrow> Undefined | x # _ \<Rightarrow> x)"

text \<open>
  Modelled from the spec: \<open>TrackModel.clone\<close> is not among the sources. It allocates a new
  object that holds the same field values.
\<close>

definition clone :: "TrackModel list \<Rightarrow> ref \<Rightarrow> ref \<times> TrackModel list" where
  "clone objs r = (length objs, objs @ [objs ! r])"

text \<open>
  The truth value of \<open>v.isSelected\<close>: reading a property of \<open>undefined\<close> or \<open>null\<close>
  throws, a primitive has no such property, and an object is a track model.
\<close>

definition read_isSelected :: "TrackModel list \<Rightarrow> jsval \<Rightarrow> error + bool" where
  "read_isSelected objs v =
     (case v of
        Undefined \<Rightarrow> Inl TypeError
      | Null \<Rightarrow> Inl TypeError
      | Obj r \<Rightarrow> Inr (isSelected (objs ! r))
      | _ \<Rightarrow> Inr False)"

section \<open>The track container\<close>

subsection \<open>Reordering\<close>

definition requestTrackReorder :: "'a component_scheme \<Rightarrow> int \<Rightarrow> int \<Rightarrow> 'a component_scheme" where
  "requestTrackReorder w fromIndex toIndex =
     (case slice w (props_tracks w) of (newOrder, w1) \<Rightarrow>
      case array_splice w1 newOrder fromIndex 1 [] of (removed, w2) \<Rightarrow>
      case array_splice w2 newOrder toIndex 0 [first_of removed] of (_, w3) \<Rightarrow>
        w3\<lparr>onTracksChanged := onTracksChanged w3 @ [newOrder]\<rparr>)"

text \<open>
  The first version of the container (v1) has other state fields (the selected tool and
  the mouse position) and the same props; its \<open>trackMoved\<close> is the same four statements.
\<close>

definition trackMoved :: "'a component_scheme \<Rightarrow> int \<Rightarrow> int \<Rightarrow> 'a component_scheme" where
  "trackMoved w fromIndex toIndex =
     (case slice w (props_tracks w) of (newOrder, w1) \<Rightarrow>
      case array_splice w1 newOrder fromIndex 1 [] of (moved, w2) \<Rightarrow>
      case array_splice w2 newOrder toIndex 0 [first_of moved] of (_, w3) \<Rightarrow>
        w3\<lparr>onTracksChanged := onTracksChanged w3 @ [newOrder]\<rparr>)"

subsection \<open>Selection\<close>

text \<open>
  \<open>toggleOneTrack(tracks, index)\<close>: the element is replaced by its clone, then the flag
  of \<open>tracks[index]\<close>, which is that clone, is negated. Calling \<open>clone\<close> on anything
  that is not a track model throws.
\<close>

definition toggleOneTrack :: "'a component_scheme \<Rightarrow> aref \<Rightarrow> int \<Rightarrow> error + 'a component_scheme" where
  "toggleOneTrack w tracks index =
     (case array_get (arrays w ! tracks) index of
        Obj r \<Rightarrow>
          (case clone (objects w) r of (c, objs) \<Rightarrow>
             Inr (w\<lparr>objects := objs[c := (objs ! c)\<lparr>isSelected := \<not> isSelected (objs ! c)\<rparr>],
                    arrays := (arrays w)[tracks := (arrays w ! tracks)[nat index := Obj c]]\<rparr>))
      | _ \<Rightarrow> Inl TypeError)"

text \<open>
  The callback of the \<open>map\<close> in \<open>deselectAllTracks\<close>, run over the elements from left
  to right; it allocates a clone for every selected track.
\<close>

fun deselect_map :: "jsval list \<Rightarrow> TrackModel list \<Rightarrow> error + (jsval list \<times> TrackModel list)" where
  "deselect_map [] objs = Inr ([], objs)"
| "deselect_map (track # rest) objs =
     (case read_isSelected objs track of
        Inl e \<Rightarrow> Inl e
      | Inr True \<Rightarrow>
          (case track of
             Obj r \<Rightarrow>
               (case clone objs r of (c, objs1) \<Rightarrow>
                  (case deselect_map rest (objs1[c := (objs1 ! c)\<lparr>isSelected := False\<rparr>]) of
                     Inl e \<Rightarrow> Inl e
                   | Inr (res, objs2) \<Rightarrow> Inr (Obj c # res, objs2)))
           | _ \<Rightarrow> Inl TypeError)
      | Inr False \<Rightarrow>
          (case deselect_map rest objs of
             Inl e \<Rightarrow> Inl e
           | Inr (res, objs2) \<Rightarrow> Inr (track # res, objs2)))"

definition deselectAllTracks :: "'a component_scheme \<Rightarrow> error + (aref \<times> 'a component_scheme)" where
  "deselectAllTracks w =
     (case deselect_map (arrays w ! props_tracks w) (objects w) of
        Inl e \<Rightarrow> Inl e
      | Inr (res, objs) \<Rightarrow> Inr (length (arrays w), w\<lparr>objects := objs, arrays := arrays w @ [res]\<rparr>))"

definition trackClicked :: "'a component_scheme \<Rightarrow> MouseEvent \<Rightarrow> int \<Rightarrow> error + 'a component_scheme" where
  "trackClicked w event index =
     (if button event = MouseButtons_LEFT \<and> ctrlKey event then
        (case slice w (props_tracks w) of (nextTracks, w1) \<Rightarrow>
           (case toggleOneTrack w1 nextTracks index of
              Inl e \<Rightarrow> Inl e
            | Inr w2 \<Rightarrow> Inr (w2\<lparr>onTracksChanged := onTracksChanged w2 @ [nextTracks]\<rparr>)))
      else Inr w)"

subsection \<open>The context menu\<close>

text \<open>
  \<open>event.preventDefault()\<close> and \<open>event.persist()\<close> act on the event only and are left
  out; \<open>setState\<close> is the update of the state field.
\<close>

definition openContextMenu :: "TrackContainer \<Rightarrow> MouseEvent \<Rightarrow> int \<Rightarrow> error + TrackContainer" where
  "openContextMenu w event index =
     (if button event = MouseButtons_LEFT then trackClicked w event index
      else if ctrlKey event then Inr w
      else
        (let w1 = w\<lparr>contextMenuEvent := Some event\<rparr> in
         case read_isSelected (objects w1) (array_get (arrays w1 ! props_tracks w1) index) of
           Inl e \<Rightarrow> Inl e
         | Inr True \<Rightarrow> Inr w1
         | Inr False \<Rightarrow>
             (case deselectAllTracks w1 of
                Inl e \<Rightarrow> Inl e
              | Inr (nextTracks, w2) \<Rightarrow>
                  (case toggleOneTrack w2 nextTracks index of
                     Inl e \<Rightarrow> Inl e
                   | Inr w3 \<Rightarrow> Inr (w3\<lparr>onTracksChanged := onTracksChanged w3 @ [nextTracks]\<rparr>)))))"

definition closeContextMenu :: "TrackContainer \<Rightarrow> MouseEvent \<Rightarrow> error + TrackContainer" where
  "closeContextMenu w event =
     (if targetInTrackDiv event \<and> ctrlKey event then Inr w
      else
        (let w1 = w\<lparr>contextMenuEvent := None\<rparr> in
         if \<not> targetInTrackDiv event then
           (case deselectAllTracks w1 of
              Inl e \<Rightarrow> Inl e
            | Inr (deselected, w2) \<Rightarrow>
                Inr (w2\<lparr>onTracksChanged := onTracksChanged w2 @ [deselected]\<rparr>))
         else Inr w1))"

subsection \<open>What the callback was given\<close>

text \<open>The selection flags of the tracks of an array, in order.\<close>

definition selected_in :: "TrackModel list \<Rightarrow> jsval \<Rightarrow> bool" where
  "selected_in objs v = (case v of Obj r \<Rightarrow> isSelected (objs ! r) | _ \<Rightarrow> False)"

definition selectionOf :: "'a component_scheme \<Rightarrow> aref \<Rightarrow> bool list" where
  "selectionOf w a = map (selected_in (objects w)) (arrays w ! a)"

text \<open>
  The track models an array refers to, in order (\<open>None\<close> for an element that is no
  object), and a track model with its selection flag set to a given value.
\<close>

definition track_of :: "TrackModel list \<Rightarrow> jsval \<Rightarrow> TrackModel option" where
  "track_of objs v = (case v of Obj r \<Rightarrow> Some (objs ! r) | _ \<Rightarrow> None)"

definition tracksOf :: "'a component_scheme \<Rightarrow> aref \<Rightarrow> TrackModel option list" where
  "tracksOf w a = map (track_of (objects w)) (arrays w ! a)"

definition withSelected :: "bool \<Rightarrow> TrackModel option \<Rightarrow> TrackModel option" where
  "withSelected b t = map_option (\<lambda>m. m\<lparr>isSelected := b\<rparr>) t"

text \<open>
  A container is well formed when \<open>props.tracks\<close> is an array of the store that holds
  track models of the store only, which is what the prop type of \<open>tracks\<close> asks for.
\<close>

definition is_track :: "TrackModel list \<Rightarrow> jsval \<Rightarrow> bool" where
  "is_track objs v = (case v of Obj r \<Rightarrow> r < length objs | _ \<Rightarrow> False)"

definition wellFormed :: "'a component_scheme \<Rightarrow> bool" where
  "wellFormed w \<longleftrightarrow>
     props_tracks w < length (arrays w) \<and> list_all (is_track (objects w)) (arrays w ! props_tracks w)"

text \<open>
  Modelled from the spec: the parent component is not among the sources. It owns the
  canonical tracks array and renders the container again with the array it was last
  handed through \<open>onTracksChanged\<close>.
\<close>

definition rerender :: "'a component_scheme \<Rightarrow> 'a component_scheme" where
  "rerender w = (if onTracksChanged w = [] then w else w\<lparr>props_tracks := last (onTracksChanged w)\<rparr>)"

text \<open>
  The scenario of the spec: tracks A (not selected), B (selected) and C (not selected),
  no menu open, nothing emitted yet.
\<close>

definition track_named :: "string \<Rightarrow> bool \<Rightarrow> TrackModel" where
  "track_named n sel = \<lparr>trackType = ''g3d'', url = n, options = [], isSelected = sel\<rparr>"

definition scenario :: TrackContainer where
  "scenario =
     \<lparr>objects = [track_named ''A'' False, track_named ''B'' True, track_named ''C'' False],
      arrays = [[Obj 0, Obj 1, Obj 2]],
      props_tracks = 0,
      onTracksChanged = [],
      selectedTool = DRAG,
      contextMenuEvent = None\<rparr>"

definition mouse :: "int \<Rightarrow> bool \<Rightarrow> bool \<Rightarrow> MouseEvent" where
  "mouse b ctrl inside = \<lparr>button = b, ctrlKey = ctrl, targetInTrackDiv = inside, pageX = 0, pageY = 0\<rparr>"

text \<open>The scenario with the context menu open, after a right click on the selected track B.\<close>

definition scenario_menu :: TrackContainer where
  "scenario_menu = scenario\<lparr>contextMenuEvent := Some (mouse 2 False True)\<rparr>"

text \<open>
  How an element \<open>v'\<close> of the array that \<open>deselectAllTracks\<close> returns relates to the
  element \<open>v\<close> of \<open>props.tracks\<close> at the same index, \<open>objs\<close> being the objects before
  the call and \<open>objs'\<close> the objects after it: a selected track is replaced by an object
  that did not exist before and holds the same fields with the flag cleared; anything else
  is the same value, for a track the same reference.
\<close>

definition deselected_from :: "TrackModel list \<Rightarrow> TrackModel list \<Rightarrow> jsval \<Rightarrow> jsval \<Rightarrow> bool" where
  "deselected_from objs objs' v v' =
     (case v of
        Obj r \<Rightarrow>
          if isSelected (objs ! r)
          then (case v' of
                  Obj c \<Rightarrow> length objs \<le> c \<and> c < length objs' \<and> objs' ! c = (objs ! r)\<lparr>isSelected := False\<rparr>
                | _ \<Rightarrow> False)
          else v' = v
      | _ \<Rightarrow> v' = v)"

section \<open>The container that is dragged\<close>

text \<open>
  The earlier container of the repository, which handles the dragging of the view itself.
  \<open>newRegionCallback\<close> holds the calls made so far to the prop of that name, oldest first.
  Pixel distances are whole numbers.
\<close>

record coordinateDiff =
  dx :: int
  dy :: int

record DraggedTrackContainer =
  width :: int
  xOffsets :: "int list"
  offsetsOnDragStart :: "int list"
  newRegionCallback :: "(int \<times> int) list"

definition MIN_DRAG_DISTANCE_FOR_REFRESH :: int where
  "MIN_DRAG_DISTANCE_FOR_REFRESH = 20"

definition viewDragStart :: "DraggedTrackContainer \<Rightarrow> DraggedTrackContainer" where
  "viewDragStart s = s\<lparr>offsetsOnDragStart := xOffsets s\<rparr>"

definition viewDrag :: "DraggedTrackContainer \<Rightarrow> coordinateDiff \<Rightarrow> DraggedTrackContainer" where
  "viewDrag s diff = s\<lparr>xOffsets := map (\<lambda>initOffset. initOffset + dx diff) (offsetsOnDragStart s)\<rparr>"

definition viewDragEnd ::
  "DraggedTrackContainer \<Rightarrow> int \<Rightarrow> int \<Rightarrow> coordinateDiff \<Rightarrow> DraggedTrackContainer" where
  "viewDragEnd s newStart newEnd diff =
     (if \<bar>dx diff\<bar> \<ge> MIN_DRAG_DISTANCE_FOR_REFRESH
      then s\<lparr>newRegionCallback := newRegionCallback s @ [(newStart, newEnd)]\<rparr>
      else s)"

text \<open>
  Modelled from the spec: the listener that turns mouse events into these calls
  (ViewDragListener) is not among the sources. A completed gesture is a pointer-down, any
  number of moves, each with the distance from the start, and the release, which carries
  the net distance and the region the listener computed from it.
\<close>

definition dragGesture ::
  "DraggedTrackContainer \<Rightarrow> coordinateDiff list \<Rightarrow> int \<Rightarrow> int \<Rightarrow> coordinateDiff \<Rightarrow> DraggedTrackContainer" where
  "dragGesture s moves newStart newEnd diff =
     viewDragEnd (foldl viewDrag (viewDragStart s) moves) newStart newEnd diff"

text \<open>A container with two tracks at rest, and a mouse that moved horizontally.\<close>

definition atRest :: DraggedTrackContainer where
  "atRest = \<lparr>width = 800, xOffsets = [0, 0], offsetsOnDragStart = [0, 0], newRegionCallback = []\<rparr>"

definition dragBy :: "int \<Rightarrow> coordinateDiff" where
  "dragBy d = \<lparr>dx = d, dy = 0\<rparr>"

section \<open>The configuration of 3D genome tracks\<close>

text \<open>
  \<open>options.key\<close>: an option that is not set reads as \<open>undefined\<close>. Option values are
  compared with \<open>!==\<close>, which on these values is inequality (objects by address).
\<close>

definition getOption :: "TrackOptions \<Rightarrow> string \<Rightarrow> jsval" where
  "getOption opts k = (case map_of opts k of None \<Rightarrow> Undefined | Some v \<Rightarrow> v)"

text \<open>Setting one option, as a context-menu editor does on the clone of a track.\<close>

definition setOption :: "TrackOptions \<Rightarrow> string \<Rightarrow> jsval \<Rightarrow> TrackOptions" where
  "setOption opts k v = (k, v) # opts"

text \<open>
  Modelled from the spec: the enumeration \<open>RegionMode\<close> (model/G3dDataModes) is not among
  the sources. The values of its two members that the configuration reads, the whole-genome
  and the whole-chromosome mode, are parameters.
\<close>

record RegionMode =
  GENOME :: jsval
  CHROMOSOME :: jsval

definition shouldFetchBecauseOptionChange :: "TrackOptions \<Rightarrow> TrackOptions \<Rightarrow> bool" where
  "shouldFetchBecauseOptionChange oldOptions newOptions \<longleftrightarrow>
     getOption oldOptions ''region'' \<noteq> getOption newOptions ''region'' \<or>
     getOption oldOptions ''resolution'' \<noteq> getOption newOptions ''resolution''"

text \<open>Regions are objects and are compared by address.\<close>

definition shouldFetchBecauseRegionChange :: "RegionMode \<Rightarrow> TrackOptions \<Rightarrow> ref \<Rightarrow> ref \<Rightarrow> bool" where
  "shouldFetchBecauseRegionChange mode currentOptions oldRegion newRegion =
     (if getOption currentOptions ''region'' = GENOME mode \<or>
         getOption currentOptions ''region'' = CHROMOSOME mode
      then False
      else oldRegion \<noteq> newRegion)"

text \<open>String values for the two modes, to run the configuration on.\<close>

definition g3dModes :: RegionMode where
  "g3dModes = \<lparr>GENOME = Str ''genome'', CHROMOSOME = Str ''chromosome''\<rparr>"

section \<open>Reordering keeps every track\<close>

subsection \<open>Removing one element and inserting it elsewhere\<close>

lemma splice_remove_one:
  "n < length xs \<Longrightarrow> splice xs (int n) 1 [] = ([xs ! n], take n xs @ drop (Suc n) xs)"
  by (simp add: splice_def relative_start_def Let_def take_Suc_conv_app_nth Cons_nth_drop_Suc min_def)

lemma splice_insert_one:
  "m \<le> length ys \<Longrightarrow> splice ys (int m) 0 [v] = ([], take m ys @ v # drop m ys)"
  by (simp add: splice_def relative_start_def Let_def)

lemma splice_move:
  assumes "n < length xs" and "m < length xs"
  shows "snd (splice (snd (splice xs (int n) 1 [])) (int m) 0 [first_of (fst (splice xs (int n) 1 []))])
         = take m (take n xs @ drop (Suc n) xs) @ xs ! n # drop m (take n xs @ drop (Suc n) xs)"
proof -
  have len: "m \<le> length (take n xs @ drop (Suc n) xs)"
    using assms by simp
  show ?thesis
    by (simp only: splice_remove_one [OF assms(1)] splice_insert_one [OF len]
        fst_conv snd_conv first_of_def list.case)
qed

lemma mset_remove_nth:
  assumes "n < length xs"
  shows "mset (take n xs @ drop (Suc n) xs) + {#xs ! n#} = mset xs"
proof -
  from assms have "xs = take n xs @ xs ! n # drop (Suc n) xs"
    by (rule id_take_nth_drop)
  then have "mset xs = mset (take n xs @ xs ! n # drop (Suc n) xs)"
    by simp
  then show ?thesis by simp
qed

lemma mset_insert_at:
  "mset (take m ys @ v # drop m ys) = mset ys + {#v#}"
proof -
  have "mset (take m ys) + mset (drop m ys) = mset ys"
    by (metis append_take_drop_id mset_append)
  then show ?thesis by simp
qed

lemma nth_insert_at:
  "m \<le> length ys \<Longrightarrow> (take m ys @ v # drop m ys) ! m = v"
  by (simp add: nth_append)

lemma remove_insert_at:
  "m \<le> length ys \<Longrightarrow>
     take m (take m ys @ v # drop m ys) @ drop (Suc m) (take m ys @ v # drop m ys) = ys"
  by (simp add: min_def)

lemma move_props:
  assumes "n < length xs" and "m < length xs"
  defines "ys \<equiv> take n xs @ drop (Suc n) xs"
  defines "zs \<equiv> take m ys @ xs ! n # drop m ys"
  shows "mset zs = mset xs" and "zs ! m = xs ! n"
    and "take m zs @ drop (Suc m) zs = take n xs @ drop (Suc n) xs"
proof -
  have len: "m \<le> length ys"
    using assms(1,2) by (simp add: ys_def)
  show "mset zs = mset xs"
    unfolding zs_def ys_def by (simp only: mset_insert_at mset_remove_nth [OF assms(1)])
  show "zs ! m = xs ! n"
    unfolding zs_def using len by (rule nth_insert_at)
  show "take m zs @ drop (Suc m) zs = take n xs @ drop (Suc n) xs"
    unfolding zs_def using remove_insert_at [OF len] by (simp only: ys_def)
qed

lemma move_same_index:
  assumes "n < length xs"
  shows "take n (take n xs @ drop (Suc n) xs) @ xs ! n # drop n (take n xs @ drop (Suc n) xs) = xs"
proof -
  have a: "take n (take n xs @ drop (Suc n) xs) = take n xs"
    using assms by simp
  have b: "drop n (take n xs @ drop (Suc n) xs) = drop (Suc n) xs"
    using assms by simp
  show ?thesis
    unfolding a b using id_take_nth_drop [OF assms, symmetric] .
qed

subsection \<open>The state after a reorder request\<close>

lemma reorder_unfold:
  assumes "props_tracks w < length (arrays w)"
  shows "requestTrackReorder w f t =
    w\<lparr>arrays := arrays w @
         [snd (splice (snd (splice (arrays w ! props_tracks w) f 1 [])) t 0
                [first_of (fst (splice (arrays w ! props_tracks w) f 1 []))])],
      onTracksChanged := onTracksChanged w @ [length (arrays w)]\<rparr>"
  using assms
  by (simp add: requestTrackReorder_def slice_def array_splice_def split: prod.splits)

lemma reorder_in_range:
  assumes "props_tracks w < length (arrays w)"
    and "n < length (arrays w ! props_tracks w)" and "m < length (arrays w ! props_tracks w)"
  shows "requestTrackReorder w (int n) (int m) =
    w\<lparr>arrays := arrays w @
         [take m (take n (arrays w ! props_tracks w) @ drop (Suc n) (arrays w ! props_tracks w))
          @ arrays w ! props_tracks w ! n
          # drop m (take n (arrays w ! props_tracks w) @ drop (Suc n) (arrays w ! props_tracks w))],
      onTracksChanged := onTracksChanged w @ [length (arrays w)]\<rparr>"
  by (simp only: reorder_unfold [OF assms(1)] splice_move [OF assms(2,3)])

lemma trackMoved_same:
  "trackMoved w f t = requestTrackReorder w f t"
  by (simp add: trackMoved_def requestTrackReorder_def)

text \<open>
  C1. A reorder request with both indices inside the array calls \<open>onTracksChanged\<close> once,
  with a newly allocated array. That array is a permutation of \<open>props.tracks\<close> (the same
  elements, each as often as before), the moved track is at \<open>toIndex\<close>, and without the
  moved track the order is the old one. The array \<open>props.tracks\<close>, every other array and
  every track model are as they were. \<open>trackMoved\<close> of the first version does the same.
  Nothing here needs the two indices to differ.
\<close>

theorem requestTrackReorder_permutes:
  assumes "props_tracks w < length (arrays w)"
    and "0 \<le> fromIndex" and "fromIndex < int (length (arrays w ! props_tracks w))"
    and "0 \<le> toIndex" and "toIndex < int (length (arrays w ! props_tracks w))"
  shows "onTracksChanged (requestTrackReorder w fromIndex toIndex) = onTracksChanged w @ [length (arrays w)]
    \<and> length (arrays (requestTrackReorder w fromIndex toIndex)) = Suc (length (arrays w))
    \<and> mset (arrays (requestTrackReorder w fromIndex toIndex) ! length (arrays w))
        = mset (arrays w ! props_tracks w)
    \<and> arrays (requestTrackReorder w fromIndex toIndex) ! length (arrays w) ! nat toIndex
        = arrays w ! props_tracks w ! nat fromIndex
    \<and> take (nat toIndex) (arrays (requestTrackReorder w fromIndex toIndex) ! length (arrays w))
        @ drop (Suc (nat toIndex)) (arrays (requestTrackReorder w fromIndex toIndex) ! length (arrays w))
        = take (nat fromIndex) (arrays w ! props_tracks w)
        @ drop (Suc (nat fromIndex)) (arrays w ! props_tracks w)
    \<and> take (length (arrays w)) (arrays (requestTrackReorder w fromIndex toIndex)) = arrays w
    \<and> props_tracks (requestTrackReorder w fromIndex toIndex) = props_tracks w
    \<and> objects (requestTrackReorder w fromIndex toIndex) = objects w
    \<and> trackMoved w fromIndex toIndex = requestTrackReorder w fromIndex toIndex"
proof -
  let ?xs = "arrays w ! props_tracks w"
  obtain n m where n: "fromIndex = int n" and m: "toIndex = int m"
    using assms(2,4) by (metis nat_0_le)
  have nlt: "n < length ?xs" and mlt: "m < length ?xs"
    using assms(3,5) n m by simp_all
  let ?zs = "take m (take n ?xs @ drop (Suc n) ?xs) @ ?xs ! n # drop m (take n ?xs @ drop (Suc n) ?xs)"
  let ?w' = "requestTrackReorder w (int n) (int m)"
  have eq: "?w' = w\<lparr>arrays := arrays w @ [?zs], onTracksChanged := onTracksChanged w @ [length (arrays w)]\<rparr>"
    using reorder_in_range [OF assms(1) nlt mlt] .
  have sel: "\<And>A B. arrays (w\<lparr>arrays := A, onTracksChanged := B\<rparr>) = A"
    by simp
  have out: "arrays ?w' ! length (arrays w) = ?zs"
    by (simp only: eq sel nth_append_length)
  have c1: "onTracksChanged ?w' = onTracksChanged w @ [length (arrays w)]"
    by (simp add: eq)
  have c2: "length (arrays ?w') = Suc (length (arrays w))"
    by (simp add: eq)
  have c3: "mset (arrays ?w' ! length (arrays w)) = mset ?xs"
    unfolding out using move_props(1) [OF nlt mlt] .
  have c4: "arrays ?w' ! length (arrays w) ! m = ?xs ! n"
    unfolding out using move_props(2) [OF nlt mlt] .
  have c5: "take m (arrays ?w' ! length (arrays w)) @ drop (Suc m) (arrays ?w' ! length (arrays w))
        = take n ?xs @ drop (Suc n) ?xs"
    unfolding out using move_props(3) [OF nlt mlt] .
  have c6: "take (length (arrays w)) (arrays ?w') = arrays w"
    by (simp add: eq)
  have c7: "props_tracks ?w' = props_tracks w"
    by (simp add: eq)
  have c8: "objects ?w' = objects w"
    by (simp add: eq)
  have c9: "trackMoved w (int n) (int m) = ?w'"
    by (rule trackMoved_same)
  show ?thesis
    unfolding n m nat_int using c1 c2 c3 c4 c5 c6 c7 c8 c9 by blast
qed

theorem requestTrackReorder_permutes_witness:
  "arrays (requestTrackReorder scenario 0 2) ! 1 = [Obj 1, Obj 2, Obj 0]
   \<and> mset (arrays (requestTrackReorder scenario 0 2) ! 1) = mset [Obj 0, Obj 1, Obj 2]
   \<and> take 1 (arrays (requestTrackReorder scenario 0 2)) = [[Obj 0, Obj 1, Obj 2]]
   \<and> onTracksChanged (requestTrackReorder scenario 0 2) = [1]
   \<and> trackMoved scenario 0 2 = requestTrackReorder scenario 0 2"
  using requestTrackReorder_permutes [of scenario 0 2]
  by (simp add: scenario_def requestTrackReorder_def slice_def array_splice_def splice_def
      relative_start_def first_of_def)

text \<open>
  C9. A reorder request from an index inside the array to that same index still calls
  \<open>onTracksChanged\<close>, with a new array that holds the elements of \<open>props.tracks\<close>, the
  same references in the same order. \<open>trackMoved\<close> of the first version does the same.
\<close>

theorem requestTrackReorder_same_index:
  assumes "props_tracks w < length (arrays w)"
    and "0 \<le> i" and "i < int (length (arrays w ! props_tracks w))"
  shows "onTracksChanged (requestTrackReorder w i i) = onTracksChanged w @ [length (arrays w)]
    \<and> arrays (requestTrackReorder w i i) ! length (arrays w) = arrays w ! props_tracks w
    \<and> objects (requestTrackReorder w i i) = objects w
    \<and> trackMoved w i i = requestTrackReorder w i i"
proof -
  let ?xs = "arrays w ! props_tracks w"
  obtain n where n: "i = int n"
    using assms(2) by (metis nat_0_le)
  have nlt: "n < length ?xs"
    using assms(3) n by simp
  have eq: "requestTrackReorder w (int n) (int n) =
      w\<lparr>arrays := arrays w @ [?xs], onTracksChanged := onTracksChanged w @ [length (arrays w)]\<rparr>"
    by (simp only: reorder_in_range [OF assms(1) nlt nlt] move_same_index [OF nlt])
  show ?thesis
    unfolding n by (simp add: eq trackMoved_same)
qed

theorem requestTrackReorder_same_index_witness:
  "onTracksChanged (requestTrackReorder scenario 1 1) = [1]
   \<and> arrays (requestTrackReorder scenario 1 1) ! 1 = [Obj 0, Obj 1, Obj 2]
   \<and> arrays scenario ! props_tracks scenario = [Obj 0, Obj 1, Obj 2]"
  using requestTrackReorder_same_index [of scenario 1]
  by (simp add: scenario_def)

section \<open>Selection\<close>

lemma wellFormed_nth:
  assumes "wellFormed w" and "n < length (arrays w ! props_tracks w)"
  obtains r where "arrays w ! props_tracks w ! n = Obj r" and "r < length (objects w)"
proof -
  from assms have "is_track (objects w) (arrays w ! props_tracks w ! n)"
    by (simp add: wellFormed_def list_all_length)
  then show ?thesis
    using that by (cases "arrays w ! props_tracks w ! n") (simp_all add: is_track_def)
qed

lemma toggleOneTrack_in_range:
  assumes "tracks < length (arrays w)" and "n < length (arrays w ! tracks)"
    and "arrays w ! tracks ! n = Obj r"
  shows "toggleOneTrack w tracks (int n) =
    Inr (w\<lparr>objects := objects w @ [(objects w ! r)\<lparr>isSelected := \<not> isSelected (objects w ! r)\<rparr>],
           arrays := (arrays w)[tracks := (arrays w ! tracks)[n := Obj (length (objects w))]]\<rparr>)"
  using assms by (simp add: toggleOneTrack_def array_get_def clone_def)

lemma trackClicked_toggles:
  assumes "props_tracks w < length (arrays w)" and "n < length (arrays w ! props_tracks w)"
    and "arrays w ! props_tracks w ! n = Obj r"
    and "button event = MouseButtons_LEFT" and "ctrlKey event"
  shows "trackClicked w event (int n) =
    Inr (w\<lparr>objects := objects w @ [(objects w ! r)\<lparr>isSelected := \<not> isSelected (objects w ! r)\<rparr>],
           arrays := arrays w @ [(arrays w ! props_tracks w)[n := Obj (length (objects w))]],
           onTracksChanged := onTracksChanged w @ [length (arrays w)]\<rparr>)"
proof -
  let ?w1 = "w\<lparr>arrays := arrays w @ [arrays w ! props_tracks w]\<rparr>"
  have t: "toggleOneTrack ?w1 (length (arrays w)) (int n) =
    Inr (?w1\<lparr>objects := objects ?w1 @ [(objects ?w1 ! r)\<lparr>isSelected := \<not> isSelected (objects ?w1 ! r)\<rparr>],
           arrays := (arrays ?w1)[length (arrays w) := (arrays ?w1 ! length (arrays w))[n := Obj (length (objects ?w1))]]\<rparr>)"
    by (rule toggleOneTrack_in_range) (use assms in simp_all)
  show ?thesis
    using assms(4,5) by (simp add: trackClicked_def slice_def t)
qed

lemma selected_in_append:
  "is_track objs v \<Longrightarrow> selected_in (objs @ ext) v = selected_in objs v"
  by (cases v) (simp_all add: is_track_def selected_in_def nth_append)

lemma is_track_append:
  "is_track objs v \<Longrightarrow> is_track (objs @ ext) v"
  by (cases v) (simp_all add: is_track_def)

lemma map_selected_in_append:
  "list_all (is_track objs) xs \<Longrightarrow> map (selected_in (objs @ ext)) xs = map (selected_in objs) xs"
  by (induction xs) (simp_all add: selected_in_append)

lemma list_all_is_track_append:
  "list_all (is_track objs) xs \<Longrightarrow> list_all (is_track (objs @ ext)) xs"
  by (induction xs) (simp_all add: is_track_append)


lemma selection_update:
  assumes "list_all (is_track objs) xs"
  shows "map (selected_in (objs @ [t])) (xs[n := Obj (length objs)])
         = (map (selected_in objs) xs)[n := isSelected t]"
proof -
  have "map (selected_in (objs @ [t])) (xs[n := Obj (length objs)])
        = (map (selected_in (objs @ [t])) xs)[n := selected_in (objs @ [t]) (Obj (length objs))]"
    by (rule map_update)
  also have "map (selected_in (objs @ [t])) xs = map (selected_in objs) xs"
    using assms by (rule map_selected_in_append)
  also have "selected_in (objs @ [t]) (Obj (length objs)) = isSelected t"
    by (simp add: selected_in_def)
  finally show ?thesis .
qed

lemma track_of_append:
  "is_track objs v \<Longrightarrow> track_of (objs @ ext) v = track_of objs v"
  by (cases v) (simp_all add: is_track_def track_of_def nth_append)

lemma map_track_of_append:
  "list_all (is_track objs) xs \<Longrightarrow> map (track_of (objs @ ext)) xs = map (track_of objs) xs"
  by (induction xs) (simp_all add: track_of_append)

lemma tracks_update:
  assumes "list_all (is_track objs) xs"
  shows "map (track_of (objs @ [t])) (xs[n := Obj (length objs)]) = (map (track_of objs) xs)[n := Some t]"
proof -
  have "map (track_of (objs @ [t])) (xs[n := Obj (length objs)])
        = (map (track_of (objs @ [t])) xs)[n := track_of (objs @ [t]) (Obj (length objs))]"
    by (rule map_update)
  also have "map (track_of (objs @ [t])) xs = map (track_of objs) xs"
    using assms by (rule map_track_of_append)
  also have "track_of (objs @ [t]) (Obj (length objs)) = Some t"
    by (simp add: track_of_def)
  finally show ?thesis .
qed

lemma wellFormed_after_click:
  assumes "wellFormed w" and "n < length (arrays w ! props_tracks w)"
  shows "wellFormed (w\<lparr>objects := objects w @ [t],
           arrays := arrays w @ [(arrays w ! props_tracks w)[n := Obj (length (objects w))]],
           onTracksChanged := cs, props_tracks := length (arrays w)\<rparr>)"
proof -
  have "list_all (is_track (objects w @ [t])) (arrays w ! props_tracks w)"
    using assms(1) by (simp add: wellFormed_def list_all_is_track_append)
  then have "list_all (is_track (objects w @ [t])) ((arrays w ! props_tracks w)[n := Obj (length (objects w))])"
    by (auto simp: list_all_iff is_track_def dest!: subsetD [OF set_update_subset_insert])
  then show ?thesis
    by (simp add: wellFormed_def)
qed

text \<open>
  C2. On a well-formed container and an index inside \<open>props.tracks\<close>, a click with the
  primary button while the modifier key is held calls \<open>onTracksChanged\<close> once with a new
  array: at the index it holds a newly allocated object whose fields are those of the clicked
  track with \<open>isSelected\<close> negated, every other element is the reference it was, and
  neither \<open>props.tracks\<close> nor any existing track model has changed. Without the modifier
  key, or with another button, the call returns the container as it was: no state change and
  no callback.
\<close>

theorem trackClicked_modifier_click:
  assumes "wellFormed w" and "0 \<le> index" and "index < int (length (arrays w ! props_tracks w))"
  shows "(button event = MouseButtons_LEFT \<and> ctrlKey event \<longrightarrow>
          (\<exists>w' r. trackClicked w event index = Inr w'
             \<and> arrays w ! props_tracks w ! nat index = Obj r
             \<and> onTracksChanged w' = onTracksChanged w @ [length (arrays w)]
             \<and> arrays w' ! length (arrays w)
                 = (arrays w ! props_tracks w)[nat index := Obj (length (objects w))]
             \<and> objects w' = objects w @ [(objects w ! r)\<lparr>isSelected := \<not> isSelected (objects w ! r)\<rparr>]
             \<and> selectionOf w' (length (arrays w))
                 = (selectionOf w (props_tracks w))[nat index := \<not> selectionOf w (props_tracks w) ! nat index]
             \<and> take (length (arrays w)) (arrays w') = arrays w
             \<and> props_tracks w' = props_tracks w))
       \<and> (\<not> (button event = MouseButtons_LEFT \<and> ctrlKey event) \<longrightarrow> trackClicked w event index = Inr w)"
proof (intro conjI impI)
  assume click: "button event = MouseButtons_LEFT \<and> ctrlKey event"
  let ?xs = "arrays w ! props_tracks w"
  obtain n where n: "index = int n"
    using assms(2) by (metis nat_0_le)
  have nlt: "n < length ?xs"
    using assms(3) n by simp
  obtain r where r: "?xs ! n = Obj r" and rlt: "r < length (objects w)"
    using wellFormed_nth [OF assms(1) nlt] .
  have tracks: "list_all (is_track (objects w)) ?xs" and a: "props_tracks w < length (arrays w)"
    using assms(1) by (simp_all add: wellFormed_def)
  let ?t = "(objects w ! r)\<lparr>isSelected := \<not> isSelected (objects w ! r)\<rparr>"
  let ?w' = "w\<lparr>objects := objects w @ [?t],
           arrays := arrays w @ [?xs[n := Obj (length (objects w))]],
           onTracksChanged := onTracksChanged w @ [length (arrays w)]\<rparr>"
  have eq: "trackClicked w event (int n) = Inr ?w'"
    using click by (simp add: trackClicked_toggles [OF a nlt r])
  have sel: "selectionOf ?w' (length (arrays w))
      = (selectionOf w (props_tracks w))[n := \<not> selectionOf w (props_tracks w) ! n]"
    using nlt r by (simp add: selectionOf_def selection_update [OF tracks] selected_in_def)
  show "\<exists>w' r. trackClicked w event index = Inr w'
             \<and> arrays w ! props_tracks w ! nat index = Obj r
             \<and> onTracksChanged w' = onTracksChanged w @ [length (arrays w)]
             \<and> arrays w' ! length (arrays w)
                 = (arrays w ! props_tracks w)[nat index := Obj (length (objects w))]
             \<and> objects w' = objects w @ [(objects w ! r)\<lparr>isSelected := \<not> isSelected (objects w ! r)\<rparr>]
             \<and> selectionOf w' (length (arrays w))
                 = (selectionOf w (props_tracks w))[nat index := \<not> selectionOf w (props_tracks w) ! nat index]
             \<and> take (length (arrays w)) (arrays w') = arrays w
             \<and> props_tracks w' = props_tracks w"
    unfolding n nat_int
    by (rule exI [of _ ?w'], rule exI [of _ r]) (simp add: eq r sel)
next
  assume "\<not> (button event = MouseButtons_LEFT \<and> ctrlKey event)"
  then show "trackClicked w event index = Inr w"
    unfolding trackClicked_def by (rule if_not_P)
qed

text \<open>The click on track B of the scenario, with the modifier, without it, and with the right button.\<close>

theorem trackClicked_modifier_click_witness:
  "trackClicked scenario (mouse 0 True True) 1 =
     Inr (scenario\<lparr>objects := objects scenario @ [track_named ''B'' False],
                   arrays := [[Obj 0, Obj 1, Obj 2], [Obj 0, Obj 3, Obj 2]],
                   onTracksChanged := [1]\<rparr>)
   \<and> trackClicked scenario (mouse 0 False True) 1 = Inr scenario
   \<and> trackClicked scenario (mouse 2 True True) 1 = Inr scenario"
  using trackClicked_modifier_click [of scenario 1 "mouse 0 True True"]
    trackClicked_modifier_click [of scenario 1 "mouse 0 False True"]
    trackClicked_modifier_click [of scenario 1 "mouse 2 True True"]
  by (simp add: scenario_def mouse_def MouseButtons_LEFT_def trackClicked_def slice_def
      toggleOneTrack_def array_get_def clone_def track_named_def)


text \<open>
  C8. Two modifier clicks on the same track, the parent rendering the container again with
  the emitted array in between, both succeed, and the array emitted last has the selection
  flags of the original \<open>props.tracks\<close>. More than that, it shows the same track models:
  the clicked position holds a copy that equals the original track in every field, and all
  other positions hold the references they held at the start.
\<close>

theorem double_toggle_restores_selection:
  assumes "wellFormed w" and "0 \<le> index" and "index < int (length (arrays w ! props_tracks w))"
    and "button event = MouseButtons_LEFT" and "ctrlKey event"
  shows "\<exists>w1 w2 r c. trackClicked w event index = Inr w1
     \<and> trackClicked (rerender w1) event index = Inr w2
     \<and> selectionOf (rerender w2) (props_tracks (rerender w2)) = selectionOf w (props_tracks w)
     \<and> tracksOf (rerender w2) (props_tracks (rerender w2)) = tracksOf w (props_tracks w)
     \<and> arrays w ! props_tracks w ! nat index = Obj r
     \<and> arrays (rerender w2) ! props_tracks (rerender w2) ! nat index = Obj c
     \<and> objects w2 ! c = objects w ! r
     \<and> take (nat index) (arrays (rerender w2) ! props_tracks (rerender w2))
         = take (nat index) (arrays w ! props_tracks w)
     \<and> drop (Suc (nat index)) (arrays (rerender w2) ! props_tracks (rerender w2))
         = drop (Suc (nat index)) (arrays w ! props_tracks w)
     \<and> take (length (objects w)) (objects w2) = objects w"
proof -
  let ?xs = "arrays w ! props_tracks w"
  obtain n where n: "index = int n"
    using assms(2) by (metis nat_0_le)
  have nlt: "n < length ?xs"
    using assms(3) n by simp
  obtain r where r: "?xs ! n = Obj r" and rlt: "r < length (objects w)"
    using wellFormed_nth [OF assms(1) nlt] .
  have tracks: "list_all (is_track (objects w)) ?xs" and a: "props_tracks w < length (arrays w)"
    using assms(1) by (simp_all add: wellFormed_def)
  let ?c1 = "length (objects w)"
  let ?t1 = "(objects w ! r)\<lparr>isSelected := \<not> isSelected (objects w ! r)\<rparr>"
  let ?ys = "?xs[n := Obj ?c1]"
  let ?w1 = "w\<lparr>objects := objects w @ [?t1], arrays := arrays w @ [?ys],
           onTracksChanged := onTracksChanged w @ [length (arrays w)]\<rparr>"
  let ?v = "w\<lparr>objects := objects w @ [?t1], arrays := arrays w @ [?ys],
           onTracksChanged := onTracksChanged w @ [length (arrays w)], props_tracks := length (arrays w)\<rparr>"
  have first: "trackClicked w event (int n) = Inr ?w1"
    using trackClicked_toggles [OF a nlt r assms(4,5)] .
  have v: "rerender ?w1 = ?v"
    by (simp add: rerender_def)
  have wf_v: "wellFormed ?v"
    using wellFormed_after_click [OF assms(1) nlt] .
  have tracks_v: "list_all (is_track (objects ?v)) ?ys"
    using wf_v by (simp add: wellFormed_def)
  let ?zs = "?xs[n := Obj (Suc ?c1)]"
  let ?w2 = "w\<lparr>objects := objects w @ [?t1, objects w ! r], arrays := arrays w @ [?ys, ?zs],
           onTracksChanged := onTracksChanged w @ [length (arrays w), Suc (length (arrays w))],
           props_tracks := length (arrays w)\<rparr>"
  have second: "trackClicked ?v event (int n) = Inr ?w2"
    using trackClicked_toggles [of ?v n ?c1 event, OF _ _ _ assms(4,5)] nlt by simp
  have last2: "props_tracks (rerender ?w2) = Suc (length (arrays w))"
    by (simp add: rerender_def)
  have arr2: "arrays (rerender ?w2) ! Suc (length (arrays w)) = ?zs"
    by (simp add: rerender_def nth_append)
  have objs2: "objects (rerender ?w2) = (objects w @ [?t1]) @ [objects w ! r]"
    by (simp add: rerender_def)
  have sel_v: "map (selected_in (objects w @ [?t1])) ?ys
      = (map (selected_in (objects w)) ?xs)[n := isSelected ?t1]"
    using tracks by (rule selection_update)
  have zs: "?zs = ?ys[n := Obj (length (objects w @ [?t1]))]"
    by simp
  have "selectionOf (rerender ?w2) (props_tracks (rerender ?w2))
      = map (selected_in ((objects w @ [?t1]) @ [objects w ! r])) ?zs"
    unfolding selectionOf_def last2 arr2 objs2 ..
  also have "\<dots> = (map (selected_in (objects w @ [?t1])) ?ys)[n := isSelected (objects w ! r)]"
    unfolding zs using tracks_v by (intro selection_update) simp
  also have "\<dots> = (map (selected_in (objects w)) ?xs)[n := isSelected (objects w ! r)]"
    unfolding sel_v by simp
  also have "\<dots> = map (selected_in (objects w)) ?xs"
    using nlt r by (simp add: list_update_same_conv selected_in_def)
  finally have sel: "selectionOf (rerender ?w2) (props_tracks (rerender ?w2)) = selectionOf w (props_tracks w)"
    by (simp add: selectionOf_def)
  have tracks1: "list_all (is_track (objects w @ [?t1])) ?xs"
    using tracks by (rule list_all_is_track_append)
  have zs': "?zs = ?xs[n := Obj (length (objects w @ [?t1]))]"
    by simp
  have "tracksOf (rerender ?w2) (props_tracks (rerender ?w2))
      = map (track_of ((objects w @ [?t1]) @ [objects w ! r])) ?zs"
    unfolding tracksOf_def last2 arr2 objs2 ..
  also have "\<dots> = (map (track_of (objects w @ [?t1])) ?xs)[n := Some (objects w ! r)]"
    unfolding zs' using tracks1 by (rule tracks_update)
  also have "\<dots> = (map (track_of (objects w)) ?xs)[n := Some (objects w ! r)]"
    by (simp only: map_track_of_append [OF tracks])
  also have "\<dots> = map (track_of (objects w)) ?xs"
    using nlt r by (simp add: list_update_same_conv track_of_def)
  finally have trk: "tracksOf (rerender ?w2) (props_tracks (rerender ?w2)) = tracksOf w (props_tracks w)"
    by (simp add: tracksOf_def)
  have elem: "arrays (rerender ?w2) ! props_tracks (rerender ?w2) ! n = Obj (Suc ?c1)"
    unfolding last2 arr2 using nlt by simp
  have obj: "objects ?w2 ! Suc ?c1 = objects w ! r"
    by (simp add: nth_append)
  have before: "take n (arrays (rerender ?w2) ! props_tracks (rerender ?w2)) = take n ?xs"
    unfolding last2 arr2 by simp
  have after: "drop (Suc n) (arrays (rerender ?w2) ! props_tracks (rerender ?w2)) = drop (Suc n) ?xs"
    unfolding last2 arr2 by simp
  have old: "take (length (objects w)) (objects ?w2) = objects w"
    by simp
  show ?thesis
    unfolding n nat_int
    using first second [folded v] sel trk r elem obj before after old by blast
qed

text \<open>Two modifier clicks on track B of the scenario.\<close>

theorem double_toggle_restores_selection_witness:
  "trackClicked scenario (mouse 0 True True) 1 =
     Inr (scenario\<lparr>objects := objects scenario @ [track_named ''B'' False],
                   arrays := [[Obj 0, Obj 1, Obj 2], [Obj 0, Obj 3, Obj 2]],
                   onTracksChanged := [1]\<rparr>)
   \<and> trackClicked (rerender (scenario\<lparr>objects := objects scenario @ [track_named ''B'' False],
                   arrays := [[Obj 0, Obj 1, Obj 2], [Obj 0, Obj 3, Obj 2]],
                   onTracksChanged := [1]\<rparr>)) (mouse 0 True True) 1 =
     Inr (scenario\<lparr>objects := objects scenario @ [track_named ''B'' False, track_named ''B'' True],
                   arrays := [[Obj 0, Obj 1, Obj 2], [Obj 0, Obj 3, Obj 2], [Obj 0, Obj 4, Obj 2]],
                   props_tracks := 1,
                   onTracksChanged := [1, 2]\<rparr>)
   \<and> selectionOf scenario 0 = [False, True, False]
   \<and> selectionOf (scenario\<lparr>objects := objects scenario @ [track_named ''B'' False, track_named ''B'' True],
                   arrays := [[Obj 0, Obj 1, Obj 2], [Obj 0, Obj 3, Obj 2], [Obj 0, Obj 4, Obj 2]],
                   props_tracks := 1,
                   onTracksChanged := [1, 2]\<rparr>) 2 = [False, True, False]"
  using double_toggle_restores_selection [of scenario 1 "mouse 0 True True"]
  by (simp add: scenario_def mouse_def MouseButtons_LEFT_def trackClicked_def slice_def
      toggleOneTrack_def array_get_def clone_def track_named_def rerender_def selectionOf_def
      selected_in_def)

section \<open>Deselecting and the context menu\<close>

lemma deselected_from_shrink:
  assumes "is_track objs v" and "deselected_from (objs @ ext) objs' v v'"
  shows "deselected_from objs objs' v v'"
  using assms
  by (cases v) (auto simp: is_track_def deselected_from_def nth_append split: if_splits jsval.splits)

lemma deselected_from_not_next:
  assumes "is_track objs x" and "deselected_from (objs @ [t]) objs' x y"
  shows "y \<noteq> Obj (length objs)"
  using assms
  by (cases x; cases y) (auto simp: is_track_def deselected_from_def split: if_splits)

lemma deselect_map_ok:
  "list_all (is_track objs) xs \<Longrightarrow>
     \<exists>res ext. deselect_map xs objs = Inr (res, objs @ ext)
       \<and> list_all2 (deselected_from objs (objs @ ext)) xs res
       \<and> distinct (filter (\<lambda>v. \<not> is_track objs v) res)"
proof (induction xs arbitrary: objs)
  case Nil
  then show ?case by simp
next
  case (Cons v xs)
  from Cons.prems obtain r where v: "v = Obj r" and r: "r < length objs"
    by (cases v) (simp_all add: is_track_def)
  from Cons.prems have rest: "list_all (is_track objs) xs"
    by simp
  show ?case
  proof (cases "isSelected (objs ! r)")
    case True
    let ?t = "(objs ! r)\<lparr>isSelected := False\<rparr>"
    have "list_all (is_track (objs @ [?t])) xs"
      using rest by (rule list_all_is_track_append)
    from Cons.IH [OF this] obtain res ext where
      run: "deselect_map xs (objs @ [?t]) = Inr (res, (objs @ [?t]) @ ext)" and
      rel: "list_all2 (deselected_from (objs @ [?t]) ((objs @ [?t]) @ ext)) xs res" and
      dist: "distinct (filter (\<lambda>v. \<not> is_track (objs @ [?t]) v) res)"
      by blast
    have rel': "list_all2 (deselected_from objs (objs @ ?t # ext)) xs res"
    proof (rule list.rel_mono_strong [OF rel])
      fix x y assume "x \<in> set xs" and d: "deselected_from (objs @ [?t]) ((objs @ [?t]) @ ext) x y"
      then have "is_track objs x"
        using rest by (simp add: list_all_iff)
      then show "deselected_from objs (objs @ ?t # ext) x y"
        using d deselected_from_shrink [of objs x "[?t]" "objs @ ?t # ext" y] by simp
    qed
    have notin: "y \<noteq> Obj (length objs)" if "y \<in> set res" for y
    proof -
      from that obtain j where j: "j < length res" and y: "y = res ! j"
        by (auto simp: in_set_conv_nth)
      have len: "length xs = length res"
        using rel by (rule list_all2_lengthD)
      have "is_track objs (xs ! j)"
        using rest j len by (simp add: list_all_length)
      moreover have "deselected_from (objs @ [?t]) ((objs @ [?t]) @ ext) (xs ! j) (res ! j)"
        using rel j by (rule list_all2_nthD2)
      ultimately show ?thesis
        unfolding y by (rule deselected_from_not_next)
    qed
    have same: "is_track (objs @ [?t]) y = is_track objs y" if "y \<in> set res" for y
      using notin [OF that] by (cases y) (auto simp: is_track_def)
    have "filter (\<lambda>v. \<not> is_track objs v) res = filter (\<lambda>v. \<not> is_track (objs @ [?t]) v) res"
      by (rule filter_cong) (simp_all add: same)
    then have dist': "distinct (filter (\<lambda>v. \<not> is_track objs v) (Obj (length objs) # res))"
      using dist notin by (auto simp: is_track_def)
    have head: "deselected_from objs (objs @ ?t # ext) v (Obj (length objs))"
      using True by (simp add: v deselected_from_def)
    have "deselect_map (v # xs) objs = Inr (Obj (length objs) # res, objs @ ?t # ext)"
      using True run by (simp add: v read_isSelected_def clone_def)
    then show ?thesis
      using head rel' dist' by blast
  next
    case False
    from Cons.IH [OF rest] obtain res ext where
      run: "deselect_map xs objs = Inr (res, objs @ ext)" and
      rel: "list_all2 (deselected_from objs (objs @ ext)) xs res" and
      dist: "distinct (filter (\<lambda>v. \<not> is_track objs v) res)"
      by blast
    have head: "deselected_from objs (objs @ ext) v v"
      using False by (simp add: v deselected_from_def)
    have dist': "distinct (filter (\<lambda>v. \<not> is_track objs v) (v # res))"
      using dist r by (simp add: v is_track_def)
    have "deselect_map (v # xs) objs = Inr (v # res, objs @ ext)"
      using False run by (simp add: v read_isSelected_def)
    then show ?thesis
      using head rel dist' by blast
  qed
qed

lemma deselected_from_result:
  assumes "is_track objs v" and "deselected_from objs (objs @ ext) v v'"
  shows "is_track (objs @ ext) v' \<and> \<not> selected_in (objs @ ext) v'"
  using assms
  by (cases v; cases v')
     (auto simp: is_track_def deselected_from_def selected_in_def nth_append split: if_splits)

lemma deselected_all:
  assumes "list_all (is_track objs) xs" and "list_all2 (deselected_from objs (objs @ ext)) xs res"
  shows "list_all (is_track (objs @ ext)) res"
    and "map (selected_in (objs @ ext)) res = replicate (length xs) False"
proof -
  have each: "\<forall>j < length res. is_track (objs @ ext) (res ! j) \<and> \<not> selected_in (objs @ ext) (res ! j)"
  proof (intro allI impI)
    fix j assume j: "j < length res"
    then have "j < length xs"
      using assms(2) by (simp add: list_all2_lengthD)
    then have "is_track objs (xs ! j)" and "deselected_from objs (objs @ ext) (xs ! j) (res ! j)"
      using assms by (simp_all add: list_all_length list_all2_nthD)
    then show "is_track (objs @ ext) (res ! j) \<and> \<not> selected_in (objs @ ext) (res ! j)"
      by (rule deselected_from_result)
  qed
  then show "list_all (is_track (objs @ ext)) res"
    by (simp add: list_all_length)
  have "length res = length xs"
    using assms(2) by (simp add: list_all2_lengthD)
  then show "map (selected_in (objs @ ext)) res = replicate (length xs) False"
    using each by (simp add: list_eq_iff_nth_eq)
qed

lemma deselected_from_track:
  assumes "is_track objs v" and "deselected_from objs (objs @ ext) v v'"
  shows "track_of (objs @ ext) v' = withSelected False (track_of objs v)"
  using assms
  by (cases v; cases v')
     (auto simp: is_track_def deselected_from_def track_of_def withSelected_def nth_append
           split: if_splits)

lemma deselected_tracks:
  assumes "list_all (is_track objs) xs" and "list_all2 (deselected_from objs (objs @ ext)) xs res"
  shows "map (track_of (objs @ ext)) res = map (withSelected False) (map (track_of objs) xs)"
proof -
  have len: "length res = length xs"
    using assms(2) by (simp add: list_all2_lengthD)
  have "track_of (objs @ ext) (res ! j) = withSelected False (track_of objs (xs ! j))"
    if "j < length xs" for j
  proof -
    from that have "is_track objs (xs ! j)" and "deselected_from objs (objs @ ext) (xs ! j) (res ! j)"
      using assms by (simp_all add: list_all_length list_all2_nthD)
    then show ?thesis by (rule deselected_from_track)
  qed
  then show ?thesis
    using len by (simp add: list_eq_iff_nth_eq)
qed

lemma deselectAllTracks_ok:
  assumes "wellFormed w"
  shows "\<exists>res ext. deselectAllTracks w =
            Inr (length (arrays w), w\<lparr>objects := objects w @ ext, arrays := arrays w @ [res]\<rparr>)
       \<and> list_all2 (deselected_from (objects w) (objects w @ ext)) (arrays w ! props_tracks w) res
       \<and> distinct (filter (\<lambda>v. \<not> is_track (objects w) v) res)"
proof -
  from assms have "list_all (is_track (objects w)) (arrays w ! props_tracks w)"
    by (simp add: wellFormed_def)
  from deselect_map_ok [OF this] obtain res ext where
    "deselect_map (arrays w ! props_tracks w) (objects w) = Inr (res, objects w @ ext)"
    "list_all2 (deselected_from (objects w) (objects w @ ext)) (arrays w ! props_tracks w) res"
    "distinct (filter (\<lambda>v. \<not> is_track (objects w) v) res)"
    by blast
  then show ?thesis
    by (auto simp: deselectAllTracks_def)
qed


text \<open>
  C10. On a well-formed container \<open>deselectAllTracks\<close> returns a newly allocated array.
  The array \<open>props.tracks\<close> and all other arrays are as before, and so is every track model
  that existed. Position by position, a selected track is replaced by an object allocated
  during the call that holds the same fields with \<open>isSelected\<close> false, and a track that
  was not selected is the very same reference (\<open>deselected_from\<close>). The new objects are
  pairwise different: every selected track has a clone of its own. Nothing is emitted.
\<close>

theorem deselectAllTracks_copy_on_write:
  assumes "wellFormed w"
  shows "\<exists>w'. deselectAllTracks w = Inr (length (arrays w), w')
     \<and> length (arrays w') = Suc (length (arrays w))
     \<and> take (length (arrays w)) (arrays w') = arrays w
     \<and> arrays w' ! props_tracks w = arrays w ! props_tracks w
     \<and> take (length (objects w)) (objects w') = objects w
     \<and> list_all2 (deselected_from (objects w) (objects w'))
          (arrays w ! props_tracks w) (arrays w' ! length (arrays w))
     \<and> distinct (filter (\<lambda>v. \<not> is_track (objects w) v) (arrays w' ! length (arrays w)))
     \<and> props_tracks w' = props_tracks w
     \<and> onTracksChanged w' = onTracksChanged w"
proof -
  from deselectAllTracks_ok [OF assms] obtain res ext where
    run: "deselectAllTracks w =
            Inr (length (arrays w), w\<lparr>objects := objects w @ ext, arrays := arrays w @ [res]\<rparr>)" and
    rel: "list_all2 (deselected_from (objects w) (objects w @ ext)) (arrays w ! props_tracks w) res" and
    dist: "distinct (filter (\<lambda>v. \<not> is_track (objects w) v) res)"
    by blast
  have "props_tracks w < length (arrays w)"
    using assms by (simp add: wellFormed_def)
  then show ?thesis
    using rel dist by (simp add: run nth_append)
qed

text \<open>In the scenario only B is selected, so only B is cloned.\<close>

theorem deselectAllTracks_copy_on_write_witness:
  "deselectAllTracks scenario =
     Inr (1, scenario\<lparr>objects := objects scenario @ [track_named ''B'' False],
                      arrays := [[Obj 0, Obj 1, Obj 2], [Obj 0, Obj 3, Obj 2]]\<rparr>)
   \<and> wellFormed scenario"
  using deselectAllTracks_copy_on_write [of scenario]
  by (simp add: scenario_def deselectAllTracks_def read_isSelected_def clone_def track_named_def
      wellFormed_def is_track_def)

lemma openContextMenu_unselected:
  assumes "wellFormed w" and "n < length (arrays w ! props_tracks w)"
    and "arrays w ! props_tracks w ! n = Obj r" and "\<not> isSelected (objects w ! r)"
    and "button event \<noteq> MouseButtons_LEFT" and "\<not> ctrlKey event"
  shows "\<exists>res ext. openContextMenu w event (int n) =
      Inr (w\<lparr>objects := objects w @ ext @ [(objects w ! r)\<lparr>isSelected := True\<rparr>],
             arrays := arrays w @ [res[n := Obj (length (objects w @ ext))]],
             onTracksChanged := onTracksChanged w @ [length (arrays w)],
             contextMenuEvent := Some event\<rparr>)
    \<and> list_all2 (deselected_from (objects w) (objects w @ ext)) (arrays w ! props_tracks w) res"
proof -
  let ?xs = "arrays w ! props_tracks w"
  let ?w1 = "w\<lparr>contextMenuEvent := Some event\<rparr>"
  have wf1: "wellFormed ?w1"
    using assms(1) by (simp add: wellFormed_def)
  have rlt: "r < length (objects w)"
    using wellFormed_nth [OF assms(1,2)] assms(3) by auto
  from deselectAllTracks_ok [OF wf1] obtain res ext where
    run: "deselectAllTracks ?w1 =
            Inr (length (arrays w), ?w1\<lparr>objects := objects w @ ext, arrays := arrays w @ [res]\<rparr>)" and
    rel: "list_all2 (deselected_from (objects w) (objects w @ ext)) ?xs res"
    by auto
  let ?w2 = "?w1\<lparr>objects := objects w @ ext, arrays := arrays w @ [res]\<rparr>"
  have len: "length res = length ?xs"
    using rel by (simp add: list_all2_lengthD)
  have "deselected_from (objects w) (objects w @ ext) (?xs ! n) (res ! n)"
    using rel assms(2) by (rule list_all2_nthD)
  then have same: "res ! n = Obj r"
    using assms(3,4) by (simp add: deselected_from_def)
  have tog: "toggleOneTrack ?w2 (length (arrays w)) (int n) =
      Inr (?w2\<lparr>objects := objects ?w2 @ [(objects ?w2 ! r)\<lparr>isSelected := \<not> isSelected (objects ?w2 ! r)\<rparr>],
           arrays := (arrays ?w2)[length (arrays w) := (arrays ?w2 ! length (arrays w))[n := Obj (length (objects ?w2))]]\<rparr>)"
    by (rule toggleOneTrack_in_range) (use assms(2) len same in simp_all)
  have read: "read_isSelected (objects ?w1) (array_get (arrays ?w1 ! props_tracks ?w1) (int n)) = Inr False"
    using assms(2,3,4) by (simp add: read_isSelected_def array_get_def)
  have "openContextMenu w event (int n) =
      Inr (w\<lparr>objects := objects w @ ext @ [(objects w ! r)\<lparr>isSelected := True\<rparr>],
             arrays := arrays w @ [res[n := Obj (length (objects w @ ext))]],
             onTracksChanged := onTracksChanged w @ [length (arrays w)],
             contextMenuEvent := Some event\<rparr>)"
    unfolding openContextMenu_def Let_def read
    using assms(4,5,6) rlt by (simp add: run tog nth_append)
  then show ?thesis
    using rel by blast
qed


text \<open>
  C3. A context-menu event with a button other than the primary one and without the modifier
  key, on a well-formed container and an index inside \<open>props.tracks\<close>. If the target track
  is not selected, \<open>onTracksChanged\<close> is called once with a new array that shows the same
  tracks with the target selected and every other track deselected, and the event is
  recorded. If the target is selected already, the only change is the recorded event:
  nothing is emitted and every track is as it was.
\<close>

theorem openContextMenu_selects_target:
  assumes "wellFormed w" and "0 \<le> index" and "index < int (length (arrays w ! props_tracks w))"
    and "button event \<noteq> MouseButtons_LEFT" and "\<not> ctrlKey event"
  shows "(\<not> selectionOf w (props_tracks w) ! nat index \<longrightarrow>
          (\<exists>w'. openContextMenu w event index = Inr w'
             \<and> onTracksChanged w' = onTracksChanged w @ [length (arrays w)]
             \<and> selectionOf w' (length (arrays w))
                 = (replicate (length (arrays w ! props_tracks w)) False)[nat index := True]
             \<and> tracksOf w' (length (arrays w))
                 = (map (withSelected False) (tracksOf w (props_tracks w)))
                     [nat index := withSelected True (tracksOf w (props_tracks w) ! nat index)]
             \<and> contextMenuEvent w' = Some event
             \<and> take (length (arrays w)) (arrays w') = arrays w
             \<and> take (length (objects w)) (objects w') = objects w
             \<and> props_tracks w' = props_tracks w))
       \<and> (selectionOf w (props_tracks w) ! nat index \<longrightarrow>
            openContextMenu w event index = Inr (w\<lparr>contextMenuEvent := Some event\<rparr>))"
proof -
  let ?xs = "arrays w ! props_tracks w"
  obtain n where n: "index = int n"
    using assms(2) by (metis nat_0_le)
  have nlt: "n < length ?xs"
    using assms(3) n by simp
  obtain r where r: "?xs ! n = Obj r" and rlt: "r < length (objects w)"
    using wellFormed_nth [OF assms(1) nlt] .
  have tracks: "list_all (is_track (objects w)) ?xs"
    using assms(1) by (simp add: wellFormed_def)
  have flag: "selectionOf w (props_tracks w) ! n = isSelected (objects w ! r)"
    using nlt r by (simp add: selectionOf_def selected_in_def)
  have unselected: "\<exists>w'. openContextMenu w event (int n) = Inr w'
             \<and> onTracksChanged w' = onTracksChanged w @ [length (arrays w)]
             \<and> selectionOf w' (length (arrays w)) = (replicate (length ?xs) False)[n := True]
             \<and> tracksOf w' (length (arrays w))
                 = (map (withSelected False) (tracksOf w (props_tracks w)))
                     [n := withSelected True (tracksOf w (props_tracks w) ! n)]
             \<and> contextMenuEvent w' = Some event
             \<and> take (length (arrays w)) (arrays w') = arrays w
             \<and> take (length (objects w)) (objects w') = objects w
             \<and> props_tracks w' = props_tracks w"
    if off: "\<not> isSelected (objects w ! r)"
  proof -
    from openContextMenu_unselected [OF assms(1) nlt r off assms(4,5)] obtain res ext where
      run: "openContextMenu w event (int n) =
        Inr (w\<lparr>objects := objects w @ ext @ [(objects w ! r)\<lparr>isSelected := True\<rparr>],
               arrays := arrays w @ [res[n := Obj (length (objects w @ ext))]],
               onTracksChanged := onTracksChanged w @ [length (arrays w)],
               contextMenuEvent := Some event\<rparr>)" and
      rel: "list_all2 (deselected_from (objects w) (objects w @ ext)) ?xs res"
      by blast
    let ?t = "(objects w ! r)\<lparr>isSelected := True\<rparr>"
    have "map (selected_in ((objects w @ ext) @ [?t])) (res[n := Obj (length (objects w @ ext))])
        = (map (selected_in (objects w @ ext)) res)[n := isSelected ?t]"
      using deselected_all(1) [OF tracks rel] by (rule selection_update)
    also have "\<dots> = (replicate (length ?xs) False)[n := True]"
      by (simp add: deselected_all(2) [OF tracks rel])
    finally have sel: "map (selected_in (objects w @ ext @ [?t])) (res[n := Obj (length (objects w @ ext))])
        = (replicate (length ?xs) False)[n := True]"
      by simp
    have "map (track_of ((objects w @ ext) @ [?t])) (res[n := Obj (length (objects w @ ext))])
        = (map (track_of (objects w @ ext)) res)[n := Some ?t]"
      using deselected_all(1) [OF tracks rel] by (rule tracks_update)
    also have "\<dots> = (map (withSelected False) (map (track_of (objects w)) ?xs))[n := Some ?t]"
      by (simp only: deselected_tracks [OF tracks rel])
    also have "Some ?t = withSelected True (map (track_of (objects w)) ?xs ! n)"
      using nlt r by (simp add: track_of_def withSelected_def)
    finally have trk: "map (track_of (objects w @ ext @ [?t])) (res[n := Obj (length (objects w @ ext))])
        = (map (withSelected False) (tracksOf w (props_tracks w)))
            [n := withSelected True (tracksOf w (props_tracks w) ! n)]"
      by (simp add: tracksOf_def)
    have out: "tracksOf (w\<lparr>objects := objects w @ ext @ [?t],
               arrays := arrays w @ [res[n := Obj (length (objects w @ ext))]],
               onTracksChanged := onTracksChanged w @ [length (arrays w)],
               contextMenuEvent := Some event\<rparr>) (length (arrays w))
        = map (track_of (objects w @ ext @ [?t])) (res[n := Obj (length (objects w @ ext))])"
      by (simp add: tracksOf_def)
    show ?thesis
      unfolding run using sel trk [folded out] by (simp add: selectionOf_def)
  qed
  have selected: "openContextMenu w event (int n) = Inr (w\<lparr>contextMenuEvent := Some event\<rparr>)"
    if on: "isSelected (objects w ! r)"
    using assms(4,5) nlt r on
    by (simp add: openContextMenu_def read_isSelected_def array_get_def)
  show ?thesis
    unfolding n nat_int flag using unselected selected by blast
qed

text \<open>The right click on C (not selected) and on B (selected) in the scenario.\<close>

theorem openContextMenu_selects_target_witness:
  "openContextMenu scenario (mouse 2 False True) 2 =
     Inr (scenario\<lparr>objects := objects scenario @ [track_named ''B'' False, track_named ''C'' True],
                   arrays := [[Obj 0, Obj 1, Obj 2], [Obj 0, Obj 3, Obj 4]],
                   onTracksChanged := [1],
                   contextMenuEvent := Some (mouse 2 False True)\<rparr>)
   \<and> openContextMenu scenario (mouse 2 False True) 1 =
     Inr (scenario\<lparr>contextMenuEvent := Some (mouse 2 False True)\<rparr>)
   \<and> selectionOf scenario 0 = [False, True, False]"
  using openContextMenu_selects_target [of scenario 2 "mouse 2 False True"]
    openContextMenu_selects_target [of scenario 1 "mouse 2 False True"]
  by (simp add: scenario_def mouse_def MouseButtons_LEFT_def openContextMenu_def
      deselectAllTracks_def read_isSelected_def toggleOneTrack_def array_get_def clone_def
      track_named_def selectionOf_def selected_in_def)

text \<open>
  C4, as amended. On a well-formed container \<open>closeContextMenu\<close> deselects every track and
  emits the deselected array exactly when the target of the event lies outside the track
  area, whether or not the modifier key is held, and it closes the menu then. With the
  target inside the track area and the modifier key held nothing changes: the menu stays
  open and no callback fires. With the target inside and no modifier key the menu is closed
  and nothing else changes.
\<close>

theorem closeContextMenu_deselects_outside:
  assumes "wellFormed w"
  shows "\<exists>w'. closeContextMenu w event = Inr w'
     \<and> (\<not> targetInTrackDiv event \<longrightarrow>
          onTracksChanged w' = onTracksChanged w @ [length (arrays w)]
          \<and> selectionOf w' (length (arrays w)) = replicate (length (arrays w ! props_tracks w)) False
          \<and> tracksOf w' (length (arrays w)) = map (withSelected False) (tracksOf w (props_tracks w))
          \<and> contextMenuEvent w' = None
          \<and> take (length (arrays w)) (arrays w') = arrays w
          \<and> take (length (objects w)) (objects w') = objects w)
     \<and> (targetInTrackDiv event \<and> ctrlKey event \<longrightarrow> w' = w)
     \<and> (targetInTrackDiv event \<and> \<not> ctrlKey event \<longrightarrow> w' = w\<lparr>contextMenuEvent := None\<rparr>)"
proof (cases "targetInTrackDiv event")
  case True
  then show ?thesis
    by (simp add: closeContextMenu_def)
next
  case False
  let ?w1 = "w\<lparr>contextMenuEvent := None\<rparr>"
  have wf1: "wellFormed ?w1" and tracks: "list_all (is_track (objects w)) (arrays w ! props_tracks w)"
    using assms by (simp_all add: wellFormed_def)
  from deselectAllTracks_ok [OF wf1] obtain res ext where
    run: "deselectAllTracks ?w1 =
            Inr (length (arrays w), ?w1\<lparr>objects := objects w @ ext, arrays := arrays w @ [res]\<rparr>)" and
    rel: "list_all2 (deselected_from (objects w) (objects w @ ext)) (arrays w ! props_tracks w) res"
    by auto
  have "closeContextMenu w event =
      Inr (w\<lparr>objects := objects w @ ext, arrays := arrays w @ [res],
             onTracksChanged := onTracksChanged w @ [length (arrays w)], contextMenuEvent := None\<rparr>)"
    using False by (simp add: closeContextMenu_def run)
  then show ?thesis
    using False deselected_all(2) [OF tracks rel] deselected_tracks [OF tracks rel]
    by (simp add: selectionOf_def tracksOf_def)
qed

text \<open>The three cases, on the scenario with the menu open.\<close>

theorem closeContextMenu_deselects_outside_witness:
  "closeContextMenu scenario_menu (mouse 0 False False) =
     Inr (scenario\<lparr>objects := objects scenario @ [track_named ''B'' False],
                   arrays := [[Obj 0, Obj 1, Obj 2], [Obj 0, Obj 3, Obj 2]],
                   onTracksChanged := [1]\<rparr>)
   \<and> closeContextMenu scenario_menu (mouse 0 True True) = Inr scenario_menu
   \<and> closeContextMenu scenario_menu (mouse 0 False True) = Inr scenario"
  using closeContextMenu_deselects_outside [of scenario_menu "mouse 0 False False"]
    closeContextMenu_deselects_outside [of scenario_menu "mouse 0 True True"]
    closeContextMenu_deselects_outside [of scenario_menu "mouse 0 False True"]
  by (simp add: scenario_menu_def scenario_def mouse_def closeContextMenu_def
      deselectAllTracks_def read_isSelected_def clone_def track_named_def)

text \<open>
  C4 as stated asks for the modifier key not to be held whenever the tracks are deselected.
  A click outside the track area with the modifier key held deselects them all the same.
\<close>

theorem closeContextMenu_counterexample:
  "closeContextMenu scenario_menu (mouse 0 True False) =
     Inr (scenario\<lparr>objects := objects scenario @ [track_named ''B'' False],
                   arrays := [[Obj 0, Obj 1, Obj 2], [Obj 0, Obj 3, Obj 2]],
                   onTracksChanged := [1]\<rparr>)
   \<and> ctrlKey (mouse 0 True False)
   \<and> \<not> targetInTrackDiv (mouse 0 True False)
   \<and> selectionOf scenario_menu (props_tracks scenario_menu) = [False, True, False]
   \<and> onTracksChanged scenario_menu = []"
  by (simp add: scenario_menu_def scenario_def mouse_def closeContextMenu_def
      deselectAllTracks_def read_isSelected_def clone_def track_named_def selectionOf_def
      selected_in_def)

section \<open>Dragging and refetching\<close>

lemma viewDrag_calls: "newRegionCallback (viewDrag s d) = newRegionCallback s"
  by (simp add: viewDrag_def)

lemma viewDrags_calls: "newRegionCallback (foldl viewDrag s ds) = newRegionCallback s"
  by (induction ds arbitrary: s) (simp_all add: viewDrag_calls)

text \<open>
  C5. A completed drag gesture, whatever its moves, calls \<open>newRegionCallback\<close> exactly once
  more, with the new region, if the net horizontal distance is at least 20 in absolute value,
  and not at all if it is less; so does \<open>viewDragEnd\<close> by itself.
\<close>

theorem drag_threshold:
  "newRegionCallback (dragGesture s moves newStart newEnd diff) =
     (if \<bar>dx diff\<bar> \<ge> 20 then newRegionCallback s @ [(newStart, newEnd)] else newRegionCallback s)
   \<and> newRegionCallback (viewDragEnd s newStart newEnd diff) =
     (if \<bar>dx diff\<bar> \<ge> 20 then newRegionCallback s @ [(newStart, newEnd)] else newRegionCallback s)"
  by (simp add: dragGesture_def viewDragEnd_def MIN_DRAG_DISTANCE_FOR_REFRESH_def viewDrags_calls
      viewDragStart_def)

text \<open>Drags by 20 and by -30 pixels refresh; drags by 19 and by -19 pixels do not.\<close>

theorem drag_threshold_witness:
  "newRegionCallback (dragGesture atRest [dragBy 5, dragBy 12, dragBy 20] 100 900 (dragBy 20)) = [(100, 900)]
   \<and> newRegionCallback (dragGesture atRest [dragBy (-5), dragBy (-30)] 100 900 (dragBy (-30))) = [(100, 900)]
   \<and> newRegionCallback (dragGesture atRest [dragBy 5, dragBy 19] 100 900 (dragBy 19)) = []
   \<and> newRegionCallback (dragGesture atRest [dragBy 40, dragBy (-19)] 100 900 (dragBy (-19))) = []"
  using drag_threshold [of atRest "[dragBy 5, dragBy 12, dragBy 20]" 100 900 "dragBy 20"]
    drag_threshold [of atRest "[dragBy (-5), dragBy (-30)]" 100 900 "dragBy (-30)"]
    drag_threshold [of atRest "[dragBy 5, dragBy 19]" 100 900 "dragBy 19"]
    drag_threshold [of atRest "[dragBy 40, dragBy (-19)]" 100 900 "dragBy (-19)"]
  by (simp add: atRest_def dragBy_def)

text \<open>The whole-chromosome mode suppresses the refetch as the whole-genome mode does.\<close>

lemma region_change_chromosome:
  "getOption currentOptions ''region'' = CHROMOSOME mode \<Longrightarrow>
     \<not> shouldFetchBecauseRegionChange mode currentOptions oldRegion newRegion"
  by (simp add: shouldFetchBecauseRegionChange_def)

text \<open>
  C6. With the region option set to the whole-genome mode, \<open>shouldFetchBecauseRegionChange\<close>
  is false whether or not the region reference changed. With the region option set to
  neither of the two region-independent modes (whole genome, whole chromosome), or not set
  at all, it is true exactly when the two region references differ.
\<close>

theorem region_change_fetch:
  "(getOption currentOptions ''region'' = GENOME mode \<longrightarrow>
      \<not> shouldFetchBecauseRegionChange mode currentOptions oldRegion newRegion)
   \<and> (getOption currentOptions ''region'' \<noteq> GENOME mode
        \<and> getOption currentOptions ''region'' \<noteq> CHROMOSOME mode \<longrightarrow>
      shouldFetchBecauseRegionChange mode currentOptions oldRegion newRegion = (oldRegion \<noteq> newRegion))"
  by (simp add: shouldFetchBecauseRegionChange_def)

theorem region_change_fetch_witness:
  "\<not> shouldFetchBecauseRegionChange g3dModes [(''region'', Str ''genome'')] 1 2
   \<and> \<not> shouldFetchBecauseRegionChange g3dModes [(''region'', Str ''genome'')] 1 1
   \<and> shouldFetchBecauseRegionChange g3dModes [(''height'', Num 300)] 1 2
   \<and> \<not> shouldFetchBecauseRegionChange g3dModes [(''height'', Num 300)] 1 1
   \<and> shouldFetchBecauseRegionChange g3dModes [(''region'', Str ''region'')] 1 2"
  using region_change_fetch [of "[(''region'', Str ''genome'')]" g3dModes 1 2]
    region_change_fetch [of "[(''region'', Str ''genome'')]" g3dModes 1 1]
    region_change_fetch [of "[(''height'', Num 300)]" g3dModes 1 2]
    region_change_fetch [of "[(''height'', Num 300)]" g3dModes 1 1]
    region_change_fetch [of "[(''region'', Str ''region'')]" g3dModes 1 2]
  by (simp add: g3dModes_def getOption_def)

text \<open>
  C7. \<open>shouldFetchBecauseOptionChange\<close> is true exactly when the \<open>region\<close> option or the
  \<open>resolution\<close> option reads differently in the old and the new options. Setting any
  other option, whatever the value, gives new options for which it is false.
\<close>

theorem option_change_fetch:
  "(shouldFetchBecauseOptionChange oldOptions newOptions \<longleftrightarrow>
      getOption oldOptions ''region'' \<noteq> getOption newOptions ''region''
      \<or> getOption oldOptions ''resolution'' \<noteq> getOption newOptions ''resolution'')
   \<and> (k \<noteq> ''region'' \<and> k \<noteq> ''resolution'' \<longrightarrow>
         \<not> shouldFetchBecauseOptionChange oldOptions (setOption oldOptions k v))"
  by (auto simp: shouldFetchBecauseOptionChange_def getOption_def setOption_def)

text \<open>A new resolution or region asks for a refetch; a new height or background colour does not.\<close>

theorem option_change_fetch_witness:
  "shouldFetchBecauseOptionChange [(''resolution'', Num 200000)]
     (setOption [(''resolution'', Num 200000)] ''resolution'' (Num 100000))
   \<and> shouldFetchBecauseOptionChange [(''resolution'', Num 200000)]
     (setOption [(''resolution'', Num 200000)] ''region'' (Str ''genome''))
   \<and> \<not> shouldFetchBecauseOptionChange [(''resolution'', Num 200000)]
     (setOption [(''resolution'', Num 200000)] ''height'' (Num 300))
   \<and> \<not> shouldFetchBecauseOptionChange [(''resolution'', Num 200000)]
     (setOption [(''resolution'', Num 200000)] ''backgroundColor'' (Str ''white''))"
  using option_change_fetch [of "[(''resolution'', Num 200000)]"
      "setOption [(''resolution'', Num 200000)] ''resolution'' (Num 100000)" "''height''" "Num 300"]
    option_change_fetch [of "[(''resolution'', Num 200000)]"
      "setOption [(''resolution'', Num 200000)] ''region'' (Str ''genome'')" "''backgroundColor''" "Str ''white''"]
  by (simp add: getOption_def setOption_def)

end
